theory Spec2Isabelle
  imports Main "HOL-Library.AList"
begin

section \<open>stix_to_zeek_intel.py: the acquisition loop of \<open>main\<close>\<close>

text \<open>
  The development embeds the body of \<open>main\<close> of \<open>shared/bin/stix_to_zeek_intel.py\<close>
  that follows argument parsing: the list-file loop (lines 122-144), the deduplication of
  the input specifiers (lines 146-148) and the loop over the specifiers (lines 152-235).

  Python strings are modelled as \<open>string\<close>: the bytes of their UTF-8 encoding.
  Splitting at \<open>|\<close>, searching for \<open>/\<close> and \<open>.\<close> and testing a prefix act on
  these bytes as they act on the characters. \<open>str.lower\<close> follows the Unicode tables
  of Python and is not defined here: it is a parameter. Everything the script obtains from
  outside (the file system, the network, \<open>stix_zeek_utils\<close>, the TAXII client library,
  \<open>str.lower\<close>) is a field of the record \<open>world\<close>: a fixed answer for every call,
  which is either a value or an exception.

  The handlers of the script are \<open>except Exception\<close>: they catch the instances of
  \<open>Exception\<close> and let \<open>KeyboardInterrupt\<close>, \<open>SystemExit\<close> and every other
  exception outside that class pass.
\<close>

subsection \<open>Exceptions, events and the result of a computation\<close>

text \<open>
  An instance of \<open>Exception\<close>: the name of its type and its message, the two things
  the script logs.
\<close>

datatype exn = Exn (ename: string) (emsg: string)

text \<open>
  What a call can raise: an instance of \<open>Exception\<close>, or a system-exiting exception
  (\<open>KeyboardInterrupt\<close>, \<open>SystemExit\<close>), which is no instance of it.
\<close>

datatype raised = Ordinary exn | SystemExiting exn

datatype version = V20 | V21

text \<open>A unit handed to the converter: an opened local file, or one page of a collection.\<close>

datatype retrieved = FileUnit string | EnvelopeUnit string

text \<open>
  What a run does that can be observed: warnings written to the log, calls of
  \<open>zeekPrinter.ProcessSTIX(unit, source=label)\<close>, and the construction of TAXII server
  and collection clients (version, URL, user, password). The messages of the levels
  \<open>info\<close> and \<open>debug\<close> (the script path, the arguments, the resolved input list) are
  not recorded.
\<close>

datatype event =
    LogWarning string
  | ProcessSTIX retrieved string
  | ServerConnect version "string option" "string option" "string option"
  | CollectionConnect version string "string option" "string option"

text \<open>
  A computation yields the events it caused, in order, and either the exception it
  raised (\<open>Inl\<close>) or its value (\<open>Inr\<close>).
\<close>

type_synonym 'a res = "event list \<times> (raised + 'a)"

definition ret :: "'a \<Rightarrow> 'a res" where
  "ret x = ([], Inr x)"

text \<open>The \<open>raise\<close> statement, and an exception that comes from a call.\<close>

definition raise :: "exn \<Rightarrow> 'a res" where
  "raise e = ([], Inl (Ordinary e))"

definition propagate :: "raised \<Rightarrow> 'a res" where
  "propagate r = ([], Inl r)"

definition emit :: "event \<Rightarrow> unit res" where
  "emit ev = ([ev], Inr ())"

text \<open>Sequencing: an exception of the first part skips the second.\<close>

definition bindR :: "'a res \<Rightarrow> ('a \<Rightarrow> 'b res) \<Rightarrow> 'b res" where
  "bindR m f = (case m of
      (evs, Inl e) \<Rightarrow> (evs, Inl e)
    | (evs, Inr x) \<Rightarrow> (case f x of (evs', r) \<Rightarrow> (evs @ evs', r)))"

text \<open>
  \<open>try: m except Exception as e: h e\<close>. An instance of \<open>Exception\<close> goes to the
  handler; a system-exiting exception passes through.
\<close>

definition try_except :: "'a res \<Rightarrow> (exn \<Rightarrow> 'a res) \<Rightarrow> 'a res" where
  "try_except m h = (case m of
      (evs, Inl (Ordinary e)) \<Rightarrow> (case h e of (evs', r) \<Rightarrow> (evs @ evs', r))
    | (evs, Inl (SystemExiting e)) \<Rightarrow> (evs, Inl (SystemExiting e))
    | (evs, Inr x) \<Rightarrow> (evs, Inr x))"

text \<open>An outside call that returns nothing: \<open>None\<close> when it succeeds.\<close>

definition check :: "raised option \<Rightarrow> unit res" where
  "check r = (case r of None \<Rightarrow> ret () | Some e \<Rightarrow> propagate e)"

text \<open>An outside call that returns a value.\<close>

definition lift :: "raised + 'a \<Rightarrow> 'a res" where
  "lift r = ([], r)"

text \<open>A step of the script that returns a value or raises an instance of \<open>Exception\<close>.\<close>

definition lift_exn :: "exn + 'a \<Rightarrow> 'a res" where
  "lift_exn r = (case r of Inl e \<Rightarrow> raise e | Inr x \<Rightarrow> ret x)"

text \<open>\<open>for x in xs: f x\<close>, left by the first exception that \<open>f\<close> raises.\<close>

fun for_each :: "('a \<Rightarrow> unit res) \<Rightarrow> 'a list \<Rightarrow> unit res" where
  "for_each f [] = ret ()"
| "for_each f (x # xs) = bindR (f x) (\<lambda>_. for_each f xs)"

subsection \<open>Strings\<close>

text \<open>
  Lowering of the ASCII letters alone. \<open>str.lower\<close> agrees with it on the strings
  made of ASCII characters; it stands for \<open>str.lower\<close> in the sample world below, and
  nowhere in the script.
\<close>

definition ascii_lower_char :: "char \<Rightarrow> char" where
  "ascii_lower_char c = (let n = (of_char c :: nat) in
     if 65 \<le> n \<and> n \<le> 90 then char_of (n + 32) else c)"

definition ascii_lower :: "string \<Rightarrow> string" where
  "ascii_lower s = map ascii_lower_char s"

text \<open>\<open>s.startswith(p)\<close>.\<close>

definition startswith :: "string \<Rightarrow> string \<Rightarrow> bool" where
  "startswith s p = (take (length p) s = p)"

text \<open>\<open>p in s\<close> for strings.\<close>

fun contains :: "string \<Rightarrow> string \<Rightarrow> bool" where
  "contains [] p = (p = [])"
| "contains (c # s) p = (startswith (c # s) p \<or> contains s p)"

text \<open>\<open>s.split(c)\<close> for a separator of one character: never an empty list.\<close>

fun split_on :: "char \<Rightarrow> string \<Rightarrow> string list" where
  "split_on c [] = [[]]"
| "split_on c (x # xs) =
     (if x = c then [] # split_on c xs
      else (case split_on c xs of w # ws \<Rightarrow> (x # w) # ws | [] \<Rightarrow> [[x]]))"

text \<open>\<open>sep.join(xs)\<close>.\<close>

fun join :: "string \<Rightarrow> string list \<Rightarrow> string" where
  "join sep [] = []"
| "join sep [x] = x"
| "join sep (x # y # zs) = x @ sep @ join sep (y # zs)"

text \<open>A string between single quotes, as the log messages show specifiers and titles.\<close>

definition quoted :: "string \<Rightarrow> string" where
  "quoted s = [CHR 0x27] @ s @ [CHR 0x27]"

text \<open>\<open>s.rfind(c)\<close>: the index of the last occurrence of \<open>c\<close>, or \<open>-1\<close>.\<close>

definition rfind :: "string \<Rightarrow> char \<Rightarrow> int" where
  "rfind s c = (if c \<in> set s
     then int (length s) - 1 - int (length (takeWhile (\<lambda>x. x \<noteq> c) (rev s)))
     else - 1)"

text \<open>\<open>os.path.basename\<close> (posixpath): \<open>p[p.rfind('/') + 1:]\<close>.\<close>

definition basename :: "string \<Rightarrow> string" where
  "basename p = drop (nat (rfind p (CHR ''/'') + 1)) p"

text \<open>
  The loop of \<open>genericpath._splitext\<close> that skips leading dots: true when a character
  other than the dot stands at an index from \<open>i\<close> up to, and without, \<open>d\<close>.
\<close>

function nondot_before :: "string \<Rightarrow> nat \<Rightarrow> nat \<Rightarrow> bool" where
  "nondot_before p i d =
     (if i < d then (if take 1 (drop i p) \<noteq> ''.'' then True else nondot_before p (Suc i) d)
      else False)"
  by pat_completeness auto
termination
  by (relation "measure (\<lambda>(p, i, d). d - i)") auto

declare nondot_before.simps [simp del]

text \<open>\<open>os.path.splitext\<close> (posixpath, through \<open>genericpath._splitext\<close>).\<close>

definition splitext :: "string \<Rightarrow> string \<times> string" where
  "splitext p = (let sepIndex = rfind p (CHR ''/''); dotIndex = rfind p (CHR ''.'') in
     if dotIndex > sepIndex \<and> nondot_before p (nat (sepIndex + 1)) (nat dotIndex)
     then (take (nat dotIndex) p, drop (nat dotIndex) p)
     else (p, []))"

subsection \<open>The world outside the script\<close>

record collection =
  ident :: string
  title :: string
  url :: string

text \<open>What the discovery of a server yields: its title and its API roots, each with its collections.\<close>

record server =
  server_title :: "string option"
  api_roots :: "collection list list"

text \<open>
  \<^item> \<open>str_lower\<close>: \<open>str.lower\<close>;
  \<^item> \<open>isfile\<close>: \<open>os.path.isfile\<close>;
  \<^item> \<open>open_read\<close>: \<open>open(inarg)\<close>, which may raise;
  \<^item> \<open>read_lines\<close>: \<open>open(f).read().splitlines()\<close> of a local list file;
  \<^item> \<open>download_lines\<close>: the download of a remote list file to a temporary file and its
    lines, \<open>None\<close> when \<open>download_to_file\<close> gives no file;
  \<^item> \<open>open_write\<close>: \<open>open(args.output, 'w')\<close>;
  \<^item> \<open>base64_decode_if_prefixed\<close>: the helper of \<open>stix_zeek_utils\<close>, a function
    of a string whose failures (a wrong encoding) are instances of \<open>Exception\<close>;
  \<^item> \<open>process_stix\<close>: \<open>zeekPrinter.ProcessSTIX\<close>, the converter;
  \<^item> \<open>discover\<close>: what \<open>server.api_roots\<close>, \<open>api_root.collections\<close> and
    \<open>server.title\<close> load from the server built from version, URL, user and password;
  \<^item> \<open>open_collection\<close>: the constructor of the collection client;
  \<^item> \<open>as_pages\<close>: the pages that the paginated request yields, and the exception that
    ends the iteration early, if any.

  The calls that reach the file system, the network or the converter can raise either
  kind of exception.
\<close>

record world =
  str_lower :: "string \<Rightarrow> string"
  isfile :: "string \<Rightarrow> bool"
  open_read :: "string \<Rightarrow> raised option"
  read_lines :: "string \<Rightarrow> raised + string list"
  download_lines :: "string \<Rightarrow> raised + string list option"
  open_write :: "string \<Rightarrow> raised option"
  base64_decode_if_prefixed :: "string \<Rightarrow> exn + string"
  process_stix :: "retrieved \<Rightarrow> string \<Rightarrow> raised option"
  discover :: "version \<Rightarrow> string option \<Rightarrow> string option \<Rightarrow> string option \<Rightarrow> raised + server"
  open_collection :: "version \<Rightarrow> string \<Rightarrow> string option \<Rightarrow> string option \<Rightarrow> raised option"
  as_pages :: "version \<Rightarrow> string \<Rightarrow> string option \<Rightarrow> string option \<Rightarrow> string list \<times> raised option"

text \<open>The parsed arguments that the body of \<open>main\<close> reads (\<open>nargs='*'\<close>, \<open>default=None\<close>).\<close>

record args =
  input :: "string list option"
  inputFile :: "string list option"
  "output" :: "string option"

subsection \<open>Deduplication of the input specifiers (lines 146-148)\<close>

text \<open>\<open>d.setdefault(k, v)\<close>: the value stored under \<open>k\<close>, after storing \<open>v\<close> when there is none.\<close>

definition setdefault :: "('k \<rightharpoonup> 'v) \<Rightarrow> 'k \<Rightarrow> 'v \<Rightarrow> 'v \<times> ('k \<rightharpoonup> 'v)" where
  "setdefault d k v = (case d k of Some w \<Rightarrow> (w, d) | None \<Rightarrow> (v, d(k \<mapsto> v)))"

text \<open>\<open>[seenInput.setdefault(x, x) for x in xs if x not in seenInput]\<close>.\<close>

fun dedup_from :: "(string \<rightharpoonup> string) \<Rightarrow> string list \<Rightarrow> string list" where
  "dedup_from seenInput [] = []"
| "dedup_from seenInput (x # xs) =
     (if seenInput x = None
      then (case setdefault seenInput x x of (y, seen') \<Rightarrow> y # dedup_from seen' xs)
      else dedup_from seenInput xs)"

definition dedup :: "string list \<Rightarrow> string list" where
  "dedup xs = dedup_from Map.empty xs"

text \<open>The position of the first occurrence of \<open>x\<close> in \<open>xs\<close>.\<close>

definition first_index :: "'a list \<Rightarrow> 'a \<Rightarrow> nat" where
  "first_index xs x = length (takeWhile (\<lambda>y. y \<noteq> x) xs)"

subsection \<open>The connection string (lines 169-182)\<close>

record conn =
  taxiiVersion :: "string option"
  taxiiDisoveryURL :: "string option"
  taxiiCollectionName :: "string option"
  taxiiUsername :: "string option"
  taxiiPassword :: "string option"

text \<open>A list comprehension over a call that may raise: the first exception ends it.\<close>

fun map_exn :: "('a \<Rightarrow> exn + 'b) \<Rightarrow> 'a list \<Rightarrow> exn + 'b list" where
  "map_exn f [] = Inr []"
| "map_exn f (x # xs) = (case f x of
      Inl e \<Rightarrow> Inl e
    | Inr y \<Rightarrow> (case map_exn f xs of Inl e \<Rightarrow> Inl e | Inr ys \<Rightarrow> Inr (y # ys)))"

text \<open>The three assignments guarded by the length of \<open>taxiiConnInfo\<close>.\<close>

definition conn_of :: "string list \<Rightarrow> conn" where
  "conn_of taxiiConnInfo =
    (let c0 = \<lparr>taxiiVersion = None, taxiiDisoveryURL = None, taxiiCollectionName = None,
               taxiiUsername = None, taxiiPassword = None\<rparr>;
         c1 = (if length taxiiConnInfo \<ge> 3
               then c0\<lparr>taxiiVersion := Some (taxiiConnInfo ! 0),
                       taxiiDisoveryURL := Some (taxiiConnInfo ! 1),
                       taxiiCollectionName := Some (taxiiConnInfo ! 2)\<rparr>
               else c0);
         c2 = (if length taxiiConnInfo \<ge> 4
               then c1\<lparr>taxiiUsername := Some (taxiiConnInfo ! 3)\<rparr> else c1)
     in (if length taxiiConnInfo \<ge> 5
         then c2\<lparr>taxiiPassword := Some (taxiiConnInfo ! 4)\<rparr> else c2))"

text \<open>
  Lines 169-182 as a whole: the fields after the first \<open>|\<close>, each decoded, then
  assigned.
\<close>

definition parse_conn :: "world \<Rightarrow> string \<Rightarrow> exn + conn" where
  "parse_conn W inarg =
     (case map_exn (base64_decode_if_prefixed W) (tl (split_on (CHR ''|'') inarg)) of
        Inl e \<Rightarrow> Inl e
      | Inr taxiiConnInfo \<Rightarrow> Inr (conn_of taxiiConnInfo))"

subsection \<open>Connecting and matching the collections (lines 184-202)\<close>

text \<open>How an f-string prints a value that may be \<open>None\<close>.\<close>

definition str_opt :: "string option \<Rightarrow> string" where
  "str_opt x = (case x of None \<Rightarrow> ''None'' | Some s \<Rightarrow> s)"

text \<open>
  Lines 185-190: the server client is built for the version given, and any other
  version raises.
\<close>

definition connect_server :: "conn \<Rightarrow> version res" where
  "connect_server c =
     (if taxiiVersion c = Some ''2.0''
      then bindR (emit (ServerConnect V20 (taxiiDisoveryURL c) (taxiiUsername c) (taxiiPassword c)))
             (\<lambda>_. ret V20)
      else if taxiiVersion c = Some ''2.1''
      then bindR (emit (ServerConnect V21 (taxiiDisoveryURL c) (taxiiUsername c) (taxiiPassword c)))
             (\<lambda>_. ret V21)
      else raise (Exn ''Exception''
             (''Unsupported TAXII version '' @ [CHR 0x22] @ str_opt (taxiiVersion c) @ [CHR 0x22])))"

text \<open>
  The condition of lines 196-198. \<open>taxiiCollectionName.lower()\<close> raises when the name
  is \<open>None\<close>.
\<close>

definition collection_matches :: "world \<Rightarrow> string option \<Rightarrow> collection \<Rightarrow> exn + bool" where
  "collection_matches W name coll =
     (if name = Some ''*'' then Inr True
      else (case name of
              None \<Rightarrow> Inl (Exn ''AttributeError''
                        (quoted ''NoneType'' @ '' object has no attribute '' @ quoted ''lower''))
            | Some n \<Rightarrow> Inr (str_lower W (title coll) = str_lower W n)))"

text \<open>
  \<open>collectionUrls\<close> is a dictionary from a title to the id and the URL of a
  collection; a Python dictionary keeps its keys in the order of their first insertion, so
  it is an association list changed by \<open>AList.update\<close>.
\<close>

type_synonym urls = "(string \<times> (string \<times> string)) list"

text \<open>The inner loop, over the collections of one API root.\<close>

fun collect_root :: "world \<Rightarrow> string option \<Rightarrow> collection list \<Rightarrow> urls \<Rightarrow> exn + urls" where
  "collect_root W n [] collectionUrls = Inr collectionUrls"
| "collect_root W n (c # cs) collectionUrls =
     (case collection_matches W n c of
        Inl e \<Rightarrow> Inl e
      | Inr True \<Rightarrow> collect_root W n cs (AList.update (title c) (ident c, url c) collectionUrls)
      | Inr False \<Rightarrow> collect_root W n cs collectionUrls)"

text \<open>The outer loop, over the API roots.\<close>

fun collect_urls :: "world \<Rightarrow> string option \<Rightarrow> collection list list \<Rightarrow> urls \<Rightarrow> exn + urls" where
  "collect_urls W n [] collectionUrls = Inr collectionUrls"
| "collect_urls W n (r # rs) collectionUrls =
     (case collect_root W n r collectionUrls of
        Inl e \<Rightarrow> Inl e
      | Inr collectionUrls' \<Rightarrow> collect_urls W n rs collectionUrls')"

text \<open>
  What the claim calls a match of a collection with the name requested: the name is
  \<open>*\<close>, or the title and the name are equal once \<open>str.lower\<close> has lowered both.
\<close>

definition matching :: "world \<Rightarrow> string \<Rightarrow> collection \<Rightarrow> bool" where
  "matching W n c = (n = ''*'' \<or> str_lower W (title c) = str_lower W n)"

text \<open>
  Equality of two strings up to the case of their ASCII letters, said without any
  lowering: the same length, and at each position the same character or the two cases of
  one letter.
\<close>

definition is_upper :: "char \<Rightarrow> bool" where
  "is_upper c = (65 \<le> (of_char c :: nat) \<and> (of_char c :: nat) \<le> 90)"

definition same_letter :: "char \<Rightarrow> char \<Rightarrow> bool" where
  "same_letter a b =
     (a = b \<or> (is_upper a \<and> of_char b = (of_char a :: nat) + 32)
            \<or> (is_upper b \<and> of_char a = (of_char b :: nat) + 32))"

definition equal_ignoring_case :: "string \<Rightarrow> string \<Rightarrow> bool" where
  "equal_ignoring_case s t = list_all2 same_letter s t"

subsection \<open>Retrieving the collections (lines 204-232)\<close>

text \<open>\<open>':'.join([x for x in [server.title, title] if x is not None])\<close>.\<close>

definition provenance :: "string option \<Rightarrow> string option \<Rightarrow> string" where
  "provenance server_t t =
     join '':'' (concat (map (\<lambda>x. case x of None \<Rightarrow> [] | Some s \<Rightarrow> [s]) [server_t, t]))"

text \<open>A call of the converter: the call is an event, and it may raise.\<close>

definition call_converter :: "world \<Rightarrow> retrieved \<Rightarrow> string \<Rightarrow> unit res" where
  "call_converter W u source = bindR (emit (ProcessSTIX u source)) (\<lambda>_. check (process_stix W u source))"

text \<open>
  The loop over the pages of one collection (lines 214-229): each page goes to the
  converter; an exception of the iteration comes after the pages it yielded.
\<close>

definition page_loop :: "world \<Rightarrow> version \<Rightarrow> conn \<Rightarrow> server \<Rightarrow> string \<Rightarrow> string \<Rightarrow> unit res" where
  "page_loop W v c srv t u =
     (case as_pages W v u (taxiiUsername c) (taxiiPassword c) of
        (envelopes, failure) \<Rightarrow>
          bindR (for_each (\<lambda>envelope. call_converter W (EnvelopeUnit envelope)
                             (provenance (server_title srv) (Some t))) envelopes)
            (\<lambda>_. check failure))"

text \<open>
  The pages that reach the converter under the label \<open>l\<close>: all of them up to, and
  with, the first one on which the converter raises.
\<close>

definition pages_handed :: "world \<Rightarrow> string \<Rightarrow> string list \<Rightarrow> string list" where
  "pages_handed W l envelopes =
     take (Suc (length (takeWhile (\<lambda>envelope. process_stix W (EnvelopeUnit envelope) l = None) envelopes)))
       envelopes"

text \<open>
  The body of the loop over \<open>collectionUrls.items()\<close>: the collection client is built
  outside the inner \<open>try\<close>, the pages are read inside it.
\<close>

definition retrieve_collection :: "world \<Rightarrow> conn \<Rightarrow> server \<Rightarrow> string \<times> (string \<times> string) \<Rightarrow> unit res" where
  "retrieve_collection W c srv item =
     (case item of (t, info) \<Rightarrow>
        (let v = (if taxiiVersion c = Some ''2.1'' then V21 else V20) in
         bindR (emit (CollectionConnect v (snd info) (taxiiUsername c) (taxiiPassword c))) (\<lambda>_.
         bindR (check (open_collection W v (snd info) (taxiiUsername c) (taxiiPassword c))) (\<lambda>_.
         try_except (page_loop W v c srv t (snd info))
           (\<lambda>e. emit (LogWarning (ename e @ '' for object of collection '' @ quoted t @ '': '' @ emsg e)))))))"


text \<open>The branch of a specifier that starts with \<open>taxii\<close> (lines 169-232).\<close>

definition taxii_flow :: "world \<Rightarrow> string \<Rightarrow> unit res" where
  "taxii_flow W inarg =
     bindR (lift_exn (parse_conn W inarg)) (\<lambda>c.
     bindR (connect_server c) (\<lambda>v.
     bindR (lift (discover W v (taxiiDisoveryURL c) (taxiiUsername c) (taxiiPassword c))) (\<lambda>srv.
     bindR (lift_exn (collect_urls W (taxiiCollectionName c) (api_roots srv) [])) (\<lambda>collectionUrls.
     for_each (retrieve_collection W c srv) collectionUrls))))"

subsection \<open>The loop over the specifiers (lines 152-235)\<close>

text \<open>The body of the \<open>try\<close> of line 153.\<close>

definition spec_body :: "world \<Rightarrow> string \<Rightarrow> unit res" where
  "spec_body W inarg =
     (if isfile W inarg
      then bindR (check (open_read W inarg)) (\<lambda>_.
             call_converter W (FileUnit inarg) (fst (splitext (basename inarg))))
      else if startswith (str_lower W inarg) ''taxii'' then taxii_flow W inarg
      else ret ())"

text \<open>The \<open>try\<close> with its handler (lines 234-235).\<close>

definition process_spec :: "world \<Rightarrow> string \<Rightarrow> unit res" where
  "process_spec W inarg =
     try_except (spec_body W inarg)
       (\<lambda>e. emit (LogWarning (ename e @ '' for '' @ quoted inarg @ '': '' @ emsg e)))"

definition input_loop :: "world \<Rightarrow> string list \<Rightarrow> unit res" where
  "input_loop W inputs = for_each (process_spec W) inputs"

subsection \<open>The list files and \<open>main\<close> (lines 115-148)\<close>

text \<open>The body of the loop of line 122, with its handler; \<open>acc\<close> is \<open>args.input\<close>.\<close>

definition list_file_step :: "world \<Rightarrow> string \<Rightarrow> string list \<Rightarrow> string list res" where
  "list_file_step W infileArg acc =
     try_except
       (if isfile W infileArg
        then bindR (lift (read_lines W infileArg)) (\<lambda>ls. ret (acc @ ls))
        else if contains infileArg ''://''
        then bindR (lift (download_lines W infileArg))
               (\<lambda>r. case r of None \<Rightarrow> ret acc | Some ls \<Rightarrow> ret (acc @ ls))
        else bindR (emit (LogWarning (''File '' @ quoted infileArg @ '' not found''))) (\<lambda>_. ret acc))
       (\<lambda>e. bindR (emit (LogWarning (ename e @ '' for '' @ quoted infileArg @ '': '' @ emsg e)))
               (\<lambda>_. ret acc))"

fun list_file_loop :: "world \<Rightarrow> string list \<Rightarrow> string list \<Rightarrow> string list res" where
  "list_file_loop W [] acc = ret acc"
| "list_file_loop W (x # xs) acc = bindR (list_file_step W x acc) (\<lambda>acc'. list_file_loop W xs acc')"

text \<open>The start of a \<open>for\<close> loop: iterating over \<open>None\<close> raises \<open>TypeError\<close>.\<close>

definition iterate :: "'a list option \<Rightarrow> 'a list res" where
  "iterate xs = (case xs of
      None \<Rightarrow> raise (Exn ''TypeError'' (quoted ''NoneType'' @ '' object is not iterable''))
    | Some ys \<Rightarrow> ret ys)"

text \<open>
  \<open>main\<close> from line 115 on. An exception that reaches the result of \<open>main\<close> ends the
  run with a traceback.
\<close>

definition main :: "world \<Rightarrow> args \<Rightarrow> unit res" where
  "main W a =
     (let input0 = (case input a of None \<Rightarrow> [] | Some xs \<Rightarrow> xs) in
      bindR (case output a of None \<Rightarrow> ret () | Some path \<Rightarrow> check (open_write W path)) (\<lambda>_.
      bindR (iterate (inputFile a)) (\<lambda>refs.
      bindR (list_file_loop W refs input0) (\<lambda>inputs.
      input_loop W (dedup inputs)))))"

subsection \<open>A sample world\<close>

text \<open>
  Two local files; a server at \<open>https://x/disc\<close> with two API roots and three
  collections, two of them titled \<open>Alpha\<close>, whose collection at \<open>https://x/c3\<close>
  fails after its first page; every other server is unreachable. Its specifiers and
  titles are ASCII strings.
\<close>

definition sample_server :: server where
  "sample_server = \<lparr>server_title = Some ''X'', api_roots =
     [[\<lparr>ident = ''1'', title = ''Alpha'', url = ''https://x/c1''\<rparr>,
       \<lparr>ident = ''2'', title = ''beta'', url = ''https://x/c2''\<rparr>],
      [\<lparr>ident = ''3'', title = ''Alpha'', url = ''https://x/c3''\<rparr>]]\<rparr>"

definition sample_world :: world where
  "sample_world =
     \<lparr>str_lower = ascii_lower,
      isfile = (\<lambda>s. s = ''a.json'' \<or> s = ''dir/c.tar.json''),
      open_read = (\<lambda>_. None),
      read_lines = (\<lambda>_. Inr []),
      download_lines = (\<lambda>_. Inr None),
      open_write = (\<lambda>_. None),
      base64_decode_if_prefixed = (\<lambda>s. Inr s),
      process_stix = (\<lambda>_ _. None),
      discover = (\<lambda>v u usr pw. if u = Some ''https://x/disc'' then Inr sample_server
                    else Inl (Ordinary (Exn ''ConnectionError'' ''unreachable''))),
      open_collection = (\<lambda>_ _ _ _. None),
      as_pages = (\<lambda>v u usr pw. if u = ''https://x/c3''
                    then ([''p1''], Some (Ordinary (Exn ''HTTPError'' ''500'')))
                    else ([''q1'', ''q2''], None))\<rparr>"

text \<open>
  The sample world with the user pressing Ctrl-C twice: while the converter works on
  \<open>a.json\<close>, and while the collection at \<open>https://x/c3\<close> is read after its first
  page.
\<close>

definition interrupted_world :: world where
  "interrupted_world = sample_world
     \<lparr>process_stix := (\<lambda>u source. if u = FileUnit ''a.json''
                         then Some (SystemExiting (Exn ''KeyboardInterrupt'' [])) else None),
      as_pages := (\<lambda>v u usr pw. if u = ''https://x/c3''
                    then ([''p1''], Some (SystemExiting (Exn ''KeyboardInterrupt'' [])))
                    else ([''q1'', ''q2''], None))\<rparr>"


section \<open>Properties\<close>

subsection \<open>Computations\<close>

lemma bindR_Inl [simp]: "bindR (evs, Inl e) f = (evs, Inl e)"
  by (simp add: bindR_def)

lemma bindR_Inr [simp]: "bindR (evs, Inr x) f = (evs @ fst (f x), snd (f x))"
  by (simp add: bindR_def split: prod.splits)

lemma bindR_ret [simp]: "bindR (ret x) f = f x"
  by (simp add: ret_def)

lemma bindR_emit [simp]: "bindR (emit ev) f = (ev # fst (f ()), snd (f ()))"
  by (simp add: emit_def)

lemma bindR_raise [simp]: "bindR (raise e) f = raise e"
  by (simp add: raise_def)

lemma bindR_propagate [simp]: "bindR (propagate r) f = propagate r"
  by (simp add: propagate_def)

lemma try_except_Ordinary [simp]:
  "try_except (evs, Inl (Ordinary e)) h = (evs @ fst (h e), snd (h e))"
  by (simp add: try_except_def split: prod.splits)

lemma try_except_SystemExiting [simp]:
  "try_except (evs, Inl (SystemExiting e)) h = (evs, Inl (SystemExiting e))"
  by (simp add: try_except_def)

lemma try_except_Inr [simp]: "try_except (evs, Inr x) h = (evs, Inr x)"
  by (simp add: try_except_def)

text \<open>A loop whose body does not raise on the elements of a list runs over the whole list.\<close>

lemma for_each_total:
  assumes "\<And>x. x \<in> set xs \<Longrightarrow> snd (f x) = Inr ()"
  shows "for_each f xs = (concat (map (\<lambda>x. fst (f x)) xs), Inr ())"
  using assms
proof (induction xs)
  case Nil
  show ?case by (simp add: ret_def)
next
  case (Cons x xs)
  obtain evs where fx: "f x = (evs, Inr ())"
    using Cons.prems [of x] by (cases "f x") auto
  have "for_each f xs = (concat (map (\<lambda>x. fst (f x)) xs), Inr ())"
    using Cons.prems by (intro Cons.IH) simp
  then show ?case by (simp add: fx)
qed

subsection \<open>Deduplication\<close>

lemma dedup_from_Cons:
  "dedup_from seen (x # xs) =
     (if seen x = None then x # dedup_from (seen(x \<mapsto> x)) xs else dedup_from seen xs)"
  by (simp add: setdefault_def)

lemma set_dedup_from: "set (dedup_from seen xs) = set xs - dom seen"
  by (induction xs arbitrary: seen) (auto simp: dedup_from_Cons simp del: dedup_from.simps(2))

lemma distinct_dedup_from: "distinct (dedup_from seen xs)"
  by (induction xs arbitrary: seen)
     (auto simp: dedup_from_Cons set_dedup_from simp del: dedup_from.simps(2))

lemma first_index_Cons:
  "first_index (x # xs) y = (if y = x then 0 else Suc (first_index xs y))"
  by (simp add: first_index_def)

lemma order_dedup_from:
  "sorted_wrt (\<lambda>a b. first_index xs a < first_index xs b) (dedup_from seen xs)"
proof (induction xs arbitrary: seen)
  case Nil
  show ?case by simp
next
  case (Cons x xs)
  have shift: "sorted_wrt (\<lambda>a b. first_index (x # xs) a < first_index (x # xs) b) ys"
    if "sorted_wrt (\<lambda>a b. first_index xs a < first_index xs b) ys" and "x \<notin> set ys" for ys
    using that by (induction ys) (auto simp: first_index_Cons)
  show ?case
  proof (cases "seen x = None")
    case True
    have notin: "x \<notin> set (dedup_from (seen(x \<mapsto> x)) xs)"
      by (simp add: set_dedup_from)
    have "\<forall>y \<in> set (dedup_from (seen(x \<mapsto> x)) xs). first_index (x # xs) x < first_index (x # xs) y"
      using notin by (auto simp: first_index_Cons)
    with shift [OF Cons.IH notin] True show ?thesis
      by (simp add: dedup_from_Cons del: dedup_from.simps(2))
  next
    case False
    then have notin: "x \<notin> set (dedup_from seen xs)"
      by (auto simp: set_dedup_from)
    with shift [OF Cons.IH notin] False show ?thesis
      by (auto simp add: dedup_from_Cons simp del: dedup_from.simps(2))
  qed
qed

text \<open>
  C3. The resolved list has no duplicates, holds the same strings as the list it is made
  from, and lists them in the order of their first occurrences: of two entries of the
  result, the earlier one occurs first in the input. The list
  \<open>["a.json", "a.json", "b.json"]\<close> resolves to \<open>["a.json", "b.json"]\<close>.
\<close>

theorem dedup_first_occurrences:
  "distinct (dedup xs) \<and> set (dedup xs) = set xs \<and>
   (\<forall>i j. i < j \<and> j < length (dedup xs) \<longrightarrow>
      first_index xs (dedup xs ! i) < first_index xs (dedup xs ! j)) \<and>
   dedup [''a.json'', ''a.json'', ''b.json''] = [''a.json'', ''b.json'']"
proof -
  have "sorted_wrt (\<lambda>a b. first_index xs a < first_index xs b) (dedup xs)"
    unfolding dedup_def by (rule order_dedup_from)
  then have "\<forall>i j. i < j \<and> j < length (dedup xs) \<longrightarrow>
      first_index xs (dedup xs ! i) < first_index xs (dedup xs ! j)"
    by (simp add: sorted_wrt_iff_nth_less)
  moreover have "dedup [''a.json'', ''a.json'', ''b.json''] = [''a.json'', ''b.json'']"
    by (simp add: dedup_def setdefault_def)
  moreover have "distinct (dedup xs)" "set (dedup xs) = set xs"
    by (simp_all add: dedup_def distinct_dedup_from set_dedup_from)
  ultimately show ?thesis by blast
qed

theorem dedup_first_occurrences_witness:
  "(0::nat) < 1 \<and> 1 < length (dedup [''b'', ''a'', ''b'', ''c'', ''a'']) \<and>
   dedup [''b'', ''a'', ''b'', ''c'', ''a''] = [''b'', ''a'', ''c''] \<and>
   first_index [''b'', ''a'', ''b'', ''c'', ''a''] (dedup [''b'', ''a'', ''b'', ''c'', ''a''] ! 0)
     < first_index [''b'', ''a'', ''b'', ''c'', ''a''] (dedup [''b'', ''a'', ''b'', ''c'', ''a''] ! 1)"
  using dedup_first_occurrences [of "[''b'', ''a'', ''b'', ''c'', ''a'']"]
  by (simp add: dedup_def setdefault_def first_index_def)

subsection \<open>Evaluation\<close>

text \<open>The equations that compute a run on a given world.\<close>

lemmas lower_eval = ascii_lower_def ascii_lower_char_def char_of_def bit_0

lemmas run_eval = input_loop_def process_spec_def spec_body_def startswith_def lower_eval
  taxii_flow_def parse_conn_def conn_of_def lift_def lift_exn_def connect_server_def check_def
  ret_def raise_def propagate_def emit_def call_converter_def basename_def splitext_def rfind_def
  nondot_before.simps collection_matches_def retrieve_collection_def page_loop_def provenance_def
  str_opt_def quoted_def

subsection \<open>The loop over the specifiers\<close>

text \<open>
  The handler of lines 234-235 turns an instance of \<open>Exception\<close> into one warning
  and lets a system-exiting exception pass.
\<close>

lemma process_spec_cases:
  "process_spec W s = (case spec_body W s of
       (evs, Inl (Ordinary e)) \<Rightarrow>
          (evs @ [LogWarning (ename e @ '' for '' @ quoted s @ '': '' @ emsg e)], Inr ())
     | (evs, Inl (SystemExiting e)) \<Rightarrow> (evs, Inl (SystemExiting e))
     | (evs, Inr u) \<Rightarrow> (evs, Inr ()))"
  by (simp add: process_spec_def emit_def split: prod.splits sum.splits raised.splits)

lemma process_spec_events:
  "fst (process_spec W s) = fst (spec_body W s) @
      (case snd (spec_body W s) of
         Inl (Ordinary e) \<Rightarrow> [LogWarning (ename e @ '' for '' @ quoted s @ '': '' @ emsg e)]
       | Inl (SystemExiting e) \<Rightarrow> []
       | Inr u \<Rightarrow> [])"
  by (simp add: process_spec_cases split: prod.splits sum.splits raised.splits)

lemma process_spec_returns:
  assumes "\<And>e. snd (spec_body W s) \<noteq> Inl (SystemExiting e)"
  shows "snd (process_spec W s) = Inr ()"
proof -
  obtain evs r where b: "spec_body W s = (evs, r)"
    by (cases "spec_body W s")
  show ?thesis
  proof (cases r)
    case (Inr u)
    with b show ?thesis by (simp add: process_spec_cases)
  next
    case (Inl x)
    show ?thesis
    proof (cases x)
      case (Ordinary e)
      with b Inl show ?thesis by (simp add: process_spec_cases)
    next
      case (SystemExiting e)
      with b Inl assms [of e] show ?thesis by simp
    qed
  qed
qed

lemma process_spec_caught:
  "spec_body W s = (evs, Inl (Ordinary e)) \<Longrightarrow>
   process_spec W s = (evs @ [LogWarning (ename e @ '' for '' @ quoted s @ '': '' @ emsg e)], Inr ())"
  by (simp add: process_spec_cases)

lemma input_loop_Cons:
  "snd (process_spec W s) = Inr () \<Longrightarrow>
   input_loop W (s # specs) = (fst (process_spec W s) @ fst (input_loop W specs), snd (input_loop W specs))"
  by (cases "process_spec W s") (simp add: input_loop_def)

lemma input_loop_concat:
  assumes "\<And>s e. s \<in> set specs \<Longrightarrow> snd (spec_body W s) \<noteq> Inl (SystemExiting e)"
  shows "input_loop W specs = (concat (map (\<lambda>s. fst (process_spec W s)) specs), Inr ())"
  unfolding input_loop_def
  by (rule for_each_total) (rule process_spec_returns, rule assms)

lemma call_converter_events:
  "fst (call_converter W u src) = [ProcessSTIX u src]"
  by (simp add: call_converter_def check_def ret_def propagate_def split: option.splits)

lemma spec_body_file:
  "isfile W s \<Longrightarrow> open_read W s = None \<Longrightarrow>
   fst (spec_body W s) = [ProcessSTIX (FileUnit s) (fst (splitext (basename s)))]"
  by (simp add: spec_body_def check_def call_converter_events)

text \<open>
  When the converter is interrupted on the first of three specifiers the exception is not
  caught: the run ends with it, and the two specifiers that follow are not processed.
\<close>

theorem input_loop_interrupted:
  "isfile interrupted_world ''a.json'' \<and> isfile interrupted_world ''dir/c.tar.json'' \<and>
   input_loop interrupted_world [''a.json'', ''dir/c.tar.json'', ''taxii|2.1|https://x/disc|beta''] =
     ([ProcessSTIX (FileUnit ''a.json'') ''a''],
      Inl (SystemExiting (Exn ''KeyboardInterrupt'' [])))"
  by (simp add: run_eval sample_world_def interrupted_world_def)

text \<open>
  C1. An instance of \<open>Exception\<close> raised while a specifier is processed is caught at the
  granularity of the specifier: one warning names the specifier and the type of the
  exception, and the loop goes on with the specifiers that follow. In a batch where no
  specifier ends with a system-exiting exception the loop ends without an exception, its
  events are those of each specifier in turn, every specifier that is a local file that
  opens is handed to the converter, and in a batch of three each of the three is
  processed.
\<close>

theorem input_loop_isolates_failures:
  "(\<forall>s rest evs e. spec_body W s = (evs, Inl (Ordinary e)) \<longrightarrow>
      input_loop W (s # rest) =
        (evs @ LogWarning (ename e @ '' for '' @ quoted s @ '': '' @ emsg e) # fst (input_loop W rest),
         snd (input_loop W rest))) \<and>
   ((\<forall>s \<in> set specs. \<forall>e. snd (spec_body W s) \<noteq> Inl (SystemExiting e)) \<longrightarrow>
      snd (input_loop W specs) = Inr () \<and>
      fst (input_loop W specs) = concat (map (\<lambda>s. fst (process_spec W s)) specs) \<and>
      (\<forall>s. fst (process_spec W s) = fst (spec_body W s) @
         (case snd (spec_body W s) of
            Inl (Ordinary e) \<Rightarrow> [LogWarning (ename e @ '' for '' @ quoted s @ '': '' @ emsg e)]
          | Inl (SystemExiting e) \<Rightarrow> []
          | Inr u \<Rightarrow> [])) \<and>
      (\<forall>s \<in> set specs. isfile W s \<and> open_read W s = None \<longrightarrow>
         ProcessSTIX (FileUnit s) (fst (splitext (basename s))) \<in> set (fst (input_loop W specs))) \<and>
      (\<forall>a b c. specs = [a, b, c] \<longrightarrow> fst (input_loop W specs) =
         fst (process_spec W a) @ fst (process_spec W b) @ fst (process_spec W c)))"
proof (intro conjI impI allI)
  fix s rest evs e
  assume b: "spec_body W s = (evs, Inl (Ordinary e))"
  show "input_loop W (s # rest) =
        (evs @ LogWarning (ename e @ '' for '' @ quoted s @ '': '' @ emsg e) # fst (input_loop W rest),
         snd (input_loop W rest))"
    using input_loop_Cons [of W s rest] by (simp add: process_spec_caught [OF b])
next
  assume h: "\<forall>s \<in> set specs. \<forall>e. snd (spec_body W s) \<noteq> Inl (SystemExiting e)"
  have loop: "input_loop W specs = (concat (map (\<lambda>s. fst (process_spec W s)) specs), Inr ())"
    using h by (intro input_loop_concat) simp
  show "snd (input_loop W specs) = Inr ()"
    by (simp add: loop)
  show "fst (input_loop W specs) = concat (map (\<lambda>s. fst (process_spec W s)) specs)"
    by (simp add: loop)
  show "\<forall>s \<in> set specs. isfile W s \<and> open_read W s = None \<longrightarrow>
         ProcessSTIX (FileUnit s) (fst (splitext (basename s))) \<in> set (fst (input_loop W specs))"
  proof (intro ballI impI)
    fix s assume s: "s \<in> set specs" "isfile W s \<and> open_read W s = None"
    then have "ProcessSTIX (FileUnit s) (fst (splitext (basename s))) \<in> set (fst (process_spec W s))"
      by (simp add: process_spec_events spec_body_file)
    with s(1) show "ProcessSTIX (FileUnit s) (fst (splitext (basename s))) \<in> set (fst (input_loop W specs))"
      by (auto simp: loop)
  qed
  fix a b c assume "specs = [a, b, c]"
  with loop show "fst (input_loop W specs) =
         fst (process_spec W a) @ fst (process_spec W b) @ fst (process_spec W c)"
    by simp
next
  fix s
  show "fst (process_spec W s) = fst (spec_body W s) @
         (case snd (spec_body W s) of
            Inl (Ordinary e) \<Rightarrow> [LogWarning (ename e @ '' for '' @ quoted s @ '': '' @ emsg e)]
          | Inl (SystemExiting e) \<Rightarrow> []
          | Inr u \<Rightarrow> [])"
    by (rule process_spec_events)
qed


text \<open>
  In the sample world the second of three specifiers raises during retrieval (its
  server is unreachable); the third, a local file, is still handed to the converter.
\<close>

theorem input_loop_isolates_failures_witness:
  "spec_body sample_world ''taxii|2.1|https://down/disc|*'' =
      ([ServerConnect V21 (Some ''https://down/disc'') None None],
       Inl (Ordinary (Exn ''ConnectionError'' ''unreachable''))) \<and>
   spec_body sample_world ''a.json'' = ([ProcessSTIX (FileUnit ''a.json'') ''a''], Inr ()) \<and>
   spec_body sample_world ''dir/c.tar.json'' =
      ([ProcessSTIX (FileUnit ''dir/c.tar.json'') ''c.tar''], Inr ()) \<and>
   ''dir/c.tar.json'' \<in> set [''a.json'', ''taxii|2.1|https://down/disc|*'', ''dir/c.tar.json''] \<and>
   isfile sample_world ''dir/c.tar.json'' \<and> open_read sample_world ''dir/c.tar.json'' = None \<and>
   input_loop sample_world [''taxii|2.1|https://down/disc|*'', ''dir/c.tar.json''] =
      ([ServerConnect V21 (Some ''https://down/disc'') None None,
        LogWarning (''ConnectionError for '' @ quoted ''taxii|2.1|https://down/disc|*'' @ '': unreachable''),
        ProcessSTIX (FileUnit ''dir/c.tar.json'') ''c.tar''], Inr ()) \<and>
   snd (input_loop sample_world
          [''a.json'', ''taxii|2.1|https://down/disc|*'', ''dir/c.tar.json'']) = Inr () \<and>
   ProcessSTIX (FileUnit ''dir/c.tar.json'') (fst (splitext (basename ''dir/c.tar.json'')))
      \<in> set (fst (input_loop sample_world
                [''a.json'', ''taxii|2.1|https://down/disc|*'', ''dir/c.tar.json'']))"
proof -
  let ?t = "''taxii|2.1|https://down/disc|*''"
  let ?specs = "[''a.json'', ?t, ''dir/c.tar.json'']"
  have b: "spec_body sample_world ?t =
      ([ServerConnect V21 (Some ''https://down/disc'') None None],
       Inl (Ordinary (Exn ''ConnectionError'' ''unreachable'')))"
    by (simp add: run_eval sample_world_def)
  have f1: "spec_body sample_world ''a.json'' = ([ProcessSTIX (FileUnit ''a.json'') ''a''], Inr ())"
    by (simp add: run_eval sample_world_def)
  have f2: "spec_body sample_world ''dir/c.tar.json'' =
      ([ProcessSTIX (FileUnit ''dir/c.tar.json'') ''c.tar''], Inr ())"
    by (simp add: run_eval sample_world_def)
  have h: "\<forall>s \<in> set ?specs. \<forall>e. snd (spec_body sample_world s) \<noteq> Inl (SystemExiting e)"
    by (simp add: b f1 f2)
  have m: "''dir/c.tar.json'' \<in> set ?specs"
    "isfile sample_world ''dir/c.tar.json''" "open_read sample_world ''dir/c.tar.json'' = None"
    by (simp_all add: sample_world_def)
  have rest: "input_loop sample_world [''dir/c.tar.json''] =
      ([ProcessSTIX (FileUnit ''dir/c.tar.json'') ''c.tar''], Inr ())"
    by (simp add: input_loop_def process_spec_def f2 ret_def)
  note t = input_loop_isolates_failures [of sample_world ?specs]
  note local = t [THEN conjunct1, rule_format, OF b, of "[''dir/c.tar.json'']"]
  note whole = t [THEN conjunct2, THEN mp, OF h]
  from local have 1: "input_loop sample_world [?t, ''dir/c.tar.json''] =
      ([ServerConnect V21 (Some ''https://down/disc'') None None,
        LogWarning (''ConnectionError for '' @ quoted ?t @ '': unreachable''),
        ProcessSTIX (FileUnit ''dir/c.tar.json'') ''c.tar''], Inr ())"
    by (simp add: rest)
  from whole have 2: "snd (input_loop sample_world ?specs) = Inr ()"
    by (rule conjunct1)
  from whole have "\<forall>s \<in> set ?specs. isfile sample_world s \<and> open_read sample_world s = None \<longrightarrow>
         ProcessSTIX (FileUnit s) (fst (splitext (basename s))) \<in> set (fst (input_loop sample_world ?specs))"
    by (elim conjE)
  from this m(1) have "isfile sample_world ''dir/c.tar.json'' \<and> open_read sample_world ''dir/c.tar.json'' = None \<longrightarrow>
         ProcessSTIX (FileUnit ''dir/c.tar.json'') (fst (splitext (basename ''dir/c.tar.json'')))
           \<in> set (fst (input_loop sample_world ?specs))"
    by (rule bspec)
  with m(2,3) have 3: "ProcessSTIX (FileUnit ''dir/c.tar.json'') (fst (splitext (basename ''dir/c.tar.json'')))
      \<in> set (fst (input_loop sample_world ?specs))"
    by (elim impE conjI)
  from b f1 f2 m 1 2 3 show ?thesis by (intro conjI)
qed


subsection \<open>Omitted \<open>--input-file\<close>\<close>

text \<open>
  With \<open>--input-file\<close> given and empty the run goes on to the specifiers of
  \<open>--input\<close>.
\<close>

lemma main_empty_input_file:
  "main W \<lparr>input = Some inp, inputFile = Some [], output = None\<rparr> = input_loop W (dedup inp)"
  by (simp add: main_def iterate_def)

text \<open>
  C2. With \<open>--input-file\<close> omitted, \<open>args.inputFile\<close> is \<open>None\<close> and the loop of
  line 122 raises \<open>TypeError\<close> outside every handler: the run ends with that exception
  before any specifier of \<open>--input\<close> is processed, whatever \<open>--input\<close> holds.
\<close>

theorem main_without_input_file:
  "main W \<lparr>input = inp, inputFile = None, output = None\<rparr> =
     ([], Inl (Ordinary (Exn ''TypeError'' (quoted ''NoneType'' @ '' object is not iterable''))))"
  by (simp add: main_def iterate_def raise_def)

subsection \<open>Specifiers of no known kind\<close>

lemma process_spec_unrecognized:
  "\<not> isfile W s \<Longrightarrow> \<not> startswith (str_lower W s) ''taxii'' \<Longrightarrow> process_spec W s = ([], Inr ())"
  by (simp add: process_spec_def spec_body_def ret_def)

text \<open>
  C9. A specifier that is neither a local file nor starts with \<open>taxii\<close> is skipped and
  the batch goes on, but nothing is logged for it: in the sample world the run over
  \<open>nosuchfile.json\<close> and \<open>a.json\<close> consists of the conversion of \<open>a.json\<close> alone.
\<close>

theorem unrecognized_specifier_skipped_silently:
  "input_loop sample_world [''nosuchfile.json'', ''a.json''] =
     ([ProcessSTIX (FileUnit ''a.json'') ''a''], Inr ())"
  by (simp add: run_eval sample_world_def)

subsection \<open>The connection string\<close>

text \<open>
  C4. A connection string that splits at \<open>|\<close> into exactly four fields, each of which
  decodes, parses with user name and password absent; a fifth field becomes the user
  name, and a sixth the password.
\<close>

theorem parse_conn_fields:
  "(split_on (CHR ''|'') inarg = [p, v, u, n] \<and>
    base64_decode_if_prefixed W v = Inr v' \<and> base64_decode_if_prefixed W u = Inr u' \<and>
    base64_decode_if_prefixed W n = Inr n' \<longrightarrow>
      parse_conn W inarg = Inr \<lparr>taxiiVersion = Some v', taxiiDisoveryURL = Some u',
        taxiiCollectionName = Some n', taxiiUsername = None, taxiiPassword = None\<rparr>) \<and>
   (split_on (CHR ''|'') inarg = [p, v, u, n, usr] \<and>
    base64_decode_if_prefixed W v = Inr v' \<and> base64_decode_if_prefixed W u = Inr u' \<and>
    base64_decode_if_prefixed W n = Inr n' \<and> base64_decode_if_prefixed W usr = Inr usr' \<longrightarrow>
      parse_conn W inarg = Inr \<lparr>taxiiVersion = Some v', taxiiDisoveryURL = Some u',
        taxiiCollectionName = Some n', taxiiUsername = Some usr', taxiiPassword = None\<rparr>) \<and>
   (split_on (CHR ''|'') inarg = [p, v, u, n, usr, pw] \<and>
    base64_decode_if_prefixed W v = Inr v' \<and> base64_decode_if_prefixed W u = Inr u' \<and>
    base64_decode_if_prefixed W n = Inr n' \<and> base64_decode_if_prefixed W usr = Inr usr' \<and>
    base64_decode_if_prefixed W pw = Inr pw' \<longrightarrow>
      parse_conn W inarg = Inr \<lparr>taxiiVersion = Some v', taxiiDisoveryURL = Some u',
        taxiiCollectionName = Some n', taxiiUsername = Some usr', taxiiPassword = Some pw'\<rparr>)"
  by (simp add: parse_conn_def conn_of_def)

theorem parse_conn_fields_witness:
  "split_on (CHR ''|'') ''taxii|2.0|https://x/disc|Alpha|guest'' =
      [''taxii'', ''2.0'', ''https://x/disc'', ''Alpha'', ''guest''] \<and>
   base64_decode_if_prefixed sample_world ''2.0'' = Inr ''2.0'' \<and>
   base64_decode_if_prefixed sample_world ''https://x/disc'' = Inr ''https://x/disc'' \<and>
   base64_decode_if_prefixed sample_world ''Alpha'' = Inr ''Alpha'' \<and>
   base64_decode_if_prefixed sample_world ''guest'' = Inr ''guest'' \<and>
   parse_conn sample_world ''taxii|2.0|https://x/disc|Alpha|guest'' =
     Inr \<lparr>taxiiVersion = Some ''2.0'', taxiiDisoveryURL = Some ''https://x/disc'',
        taxiiCollectionName = Some ''Alpha'', taxiiUsername = Some ''guest'', taxiiPassword = None\<rparr>"
proof -
  have s: "split_on (CHR ''|'') ''taxii|2.0|https://x/disc|Alpha|guest'' =
      [''taxii'', ''2.0'', ''https://x/disc'', ''Alpha'', ''guest'']"
    by simp
  have d: "base64_decode_if_prefixed sample_world ''2.0'' = Inr ''2.0''"
    "base64_decode_if_prefixed sample_world ''https://x/disc'' = Inr ''https://x/disc''"
    "base64_decode_if_prefixed sample_world ''Alpha'' = Inr ''Alpha''"
    "base64_decode_if_prefixed sample_world ''guest'' = Inr ''guest''"
    by (simp_all add: sample_world_def)
  from parse_conn_fields [of "''taxii|2.0|https://x/disc|Alpha|guest''" "''taxii''" "''2.0''"
      "''https://x/disc''" "''Alpha''" sample_world "''2.0''" "''https://x/disc''" "''Alpha''"
      "''guest''" "''guest''"] s d
  show ?thesis by blast
qed

subsection \<open>Unsupported versions and short connection strings\<close>

lemma spec_body_taxii:
  "\<not> isfile W s \<Longrightarrow> startswith (str_lower W s) ''taxii'' \<Longrightarrow> spec_body W s = taxii_flow W s"
  by (simp add: spec_body_def)

lemma taxii_flow_unsupported:
  assumes "parse_conn W s = Inr c" "taxiiVersion c \<noteq> Some ''2.0''" "taxiiVersion c \<noteq> Some ''2.1''"
  shows "taxii_flow W s = ([], Inl (Ordinary (Exn ''Exception''
           (''Unsupported TAXII version '' @ [CHR 0x22] @ str_opt (taxiiVersion c) @ [CHR 0x22]))))"
  using assms by (simp add: taxii_flow_def lift_exn_def connect_server_def raise_def)

lemma taxii_flow_parse_error:
  assumes "parse_conn W s = Inl e"
  shows "taxii_flow W s = ([], Inl (Ordinary e))"
  using assms by (simp add: taxii_flow_def lift_exn_def raise_def)

text \<open>
  C6. A specifier that reaches the TAXII branch and parses with a version other than
  \<open>2.0\<close> and \<open>2.1\<close> raises; the handler of the specifier logs one warning naming it, no
  server client is built, and the loop goes on with the specifiers that follow.
\<close>

theorem unsupported_version_rejected:
  assumes "\<not> isfile W s" and "startswith (str_lower W s) ''taxii''"
    and "parse_conn W s = Inr c"
    and "taxiiVersion c \<noteq> Some ''2.0''" and "taxiiVersion c \<noteq> Some ''2.1''"
  shows "process_spec W s =
           ([LogWarning (''Exception for '' @ quoted s @ '': Unsupported TAXII version '' @
               [CHR 0x22] @ str_opt (taxiiVersion c) @ [CHR 0x22])], Inr ()) \<and>
         (\<forall>v u usr pw. ServerConnect v u usr pw \<notin> set (fst (process_spec W s))) \<and>
         input_loop W (s # rest) =
           (LogWarning (''Exception for '' @ quoted s @ '': Unsupported TAXII version '' @
               [CHR 0x22] @ str_opt (taxiiVersion c) @ [CHR 0x22]) # fst (input_loop W rest),
            snd (input_loop W rest))"
proof -
  have "spec_body W s = ([], Inl (Ordinary (Exn ''Exception''
           (''Unsupported TAXII version '' @ [CHR 0x22] @ str_opt (taxiiVersion c) @ [CHR 0x22]))))"
    using assms by (simp add: spec_body_taxii taxii_flow_unsupported)
  then have p: "process_spec W s =
           ([LogWarning (''Exception for '' @ quoted s @ '': Unsupported TAXII version '' @
               [CHR 0x22] @ str_opt (taxiiVersion c) @ [CHR 0x22])], Inr ())"
    by (simp add: process_spec_cases)
  show ?thesis
    by (simp add: p input_loop_Cons)
qed

text \<open>The decoded fields are as many as the fields.\<close>

lemma map_exn_length: "map_exn f xs = Inr ys \<Longrightarrow> length ys = length xs"
  by (induction xs arbitrary: ys) (auto split: sum.splits)

text \<open>
  C10. A specifier that reaches the TAXII branch with fewer than three fields after the
  marker yields exactly one warning and no server client, and the loop goes on; when its
  fields decode, the version parsed is \<open>None\<close> and the warning is that of the unsupported
  version \<open>None\<close>.
\<close>

theorem short_connection_string_rejected:
  assumes "\<not> isfile W s" and "startswith (str_lower W s) ''taxii''"
    and "length (tl (split_on (CHR ''|'') s)) < 3"
  shows "(\<exists>msg. process_spec W s = ([LogWarning msg], Inr ())) \<and>
         (\<forall>ds. map_exn (base64_decode_if_prefixed W) (tl (split_on (CHR ''|'') s)) = Inr ds \<longrightarrow>
            parse_conn W s = Inr \<lparr>taxiiVersion = None, taxiiDisoveryURL = None,
               taxiiCollectionName = None, taxiiUsername = None, taxiiPassword = None\<rparr> \<and>
            process_spec W s =
              ([LogWarning (''Exception for '' @ quoted s @ '': Unsupported TAXII version '' @
                  [CHR 0x22] @ ''None'' @ [CHR 0x22])], Inr ())) \<and>
         (\<forall>v u usr pw. ServerConnect v u usr pw \<notin> set (fst (process_spec W s))) \<and>
         input_loop W (s # rest) =
           (fst (process_spec W s) @ fst (input_loop W rest), snd (input_loop W rest))"
proof -
  let ?none = "\<lparr>taxiiVersion = None, taxiiDisoveryURL = None,
               taxiiCollectionName = None, taxiiUsername = None, taxiiPassword = None\<rparr>"
  have body: "spec_body W s = taxii_flow W s"
    using assms(1,2) by (rule spec_body_taxii)
  have parsed: "parse_conn W s = Inr ?none"
    if "map_exn (base64_decode_if_prefixed W) (tl (split_on (CHR ''|'') s)) = Inr ds" for ds
  proof -
    have "length ds < 3"
      using map_exn_length [OF that] assms(3) by simp
    then show ?thesis
      using that by (simp add: parse_conn_def conn_of_def)
  qed
  have flow: "\<exists>e. taxii_flow W s = ([], Inl (Ordinary e))"
  proof (cases "map_exn (base64_decode_if_prefixed W) (tl (split_on (CHR ''|'') s))")
    case (Inl e)
    then have "parse_conn W s = Inl e" by (simp add: parse_conn_def)
    then show ?thesis by (auto simp: taxii_flow_parse_error)
  next
    case (Inr ds)
    from taxii_flow_unsupported [OF parsed [OF Inr]] show ?thesis by simp
  qed
  then obtain e where e: "spec_body W s = ([], Inl (Ordinary e))"
    using body by auto
  then have one: "process_spec W s =
      ([LogWarning (ename e @ '' for '' @ quoted s @ '': '' @ emsg e)], Inr ())"
    by (simp add: process_spec_cases)
  have none: "process_spec W s =
              ([LogWarning (''Exception for '' @ quoted s @ '': Unsupported TAXII version '' @
                  [CHR 0x22] @ ''None'' @ [CHR 0x22])], Inr ())"
    if "map_exn (base64_decode_if_prefixed W) (tl (split_on (CHR ''|'') s)) = Inr ds" for ds
  proof -
    from taxii_flow_unsupported [OF parsed [OF that]] body
    show ?thesis by (simp add: process_spec_cases str_opt_def)
  qed
  show ?thesis
    using one parsed none by (simp add: input_loop_Cons)
qed


theorem unsupported_version_rejected_witness:
  "\<not> isfile sample_world ''taxii|3.0|https://x/disc|Alpha'' \<and>
   startswith (str_lower sample_world ''taxii|3.0|https://x/disc|Alpha'') ''taxii'' \<and>
   parse_conn sample_world ''taxii|3.0|https://x/disc|Alpha'' =
     Inr \<lparr>taxiiVersion = Some ''3.0'', taxiiDisoveryURL = Some ''https://x/disc'',
          taxiiCollectionName = Some ''Alpha'', taxiiUsername = None, taxiiPassword = None\<rparr> \<and>
   Some ''3.0'' \<noteq> Some ''2.0'' \<and> Some ''3.0'' \<noteq> Some ''2.1'' \<and>
   input_loop sample_world [''taxii|3.0|https://x/disc|Alpha'', ''a.json''] =
     ([LogWarning (''Exception for '' @ quoted ''taxii|3.0|https://x/disc|Alpha'' @
         '': Unsupported TAXII version '' @ [CHR 0x22] @ ''3.0'' @ [CHR 0x22]),
       ProcessSTIX (FileUnit ''a.json'') ''a''], Inr ())"
proof -
  let ?s = "''taxii|3.0|https://x/disc|Alpha''"
  let ?c = "\<lparr>taxiiVersion = Some ''3.0'', taxiiDisoveryURL = Some ''https://x/disc'',
          taxiiCollectionName = Some ''Alpha'', taxiiUsername = None, taxiiPassword = None\<rparr>"
  have h1: "\<not> isfile sample_world ?s" by (simp add: sample_world_def)
  have h2: "startswith (str_lower sample_world ?s) ''taxii''"
    by (simp add: startswith_def lower_eval sample_world_def)
  have h3: "parse_conn sample_world ?s = Inr ?c"
    by (simp add: parse_conn_def conn_of_def sample_world_def)
  have h4: "taxiiVersion ?c \<noteq> Some ''2.0''" and h5: "taxiiVersion ?c \<noteq> Some ''2.1''"
    by simp_all
  have rest: "input_loop sample_world [''a.json''] = ([ProcessSTIX (FileUnit ''a.json'') ''a''], Inr ())"
    by (simp add: run_eval sample_world_def)
  from unsupported_version_rejected [OF h1 h2 h3 h4 h5, of "[''a.json'']"] rest
  have "input_loop sample_world [?s, ''a.json''] =
     ([LogWarning (''Exception for '' @ quoted ?s @
         '': Unsupported TAXII version '' @ [CHR 0x22] @ ''3.0'' @ [CHR 0x22]),
       ProcessSTIX (FileUnit ''a.json'') ''a''], Inr ())"
    by (simp add: str_opt_def)
  with h1 h2 h3 show ?thesis by simp
qed

theorem short_connection_string_rejected_witness:
  "\<not> isfile sample_world ''taxii|2.0|https://x/disc'' \<and>
   startswith (str_lower sample_world ''taxii|2.0|https://x/disc'') ''taxii'' \<and>
   length (tl (split_on (CHR ''|'') ''taxii|2.0|https://x/disc'')) < 3 \<and>
   map_exn (base64_decode_if_prefixed sample_world) (tl (split_on (CHR ''|'') ''taxii|2.0|https://x/disc''))
     = Inr [''2.0'', ''https://x/disc''] \<and>
   process_spec sample_world ''taxii|2.0|https://x/disc'' =
     ([LogWarning (''Exception for '' @ quoted ''taxii|2.0|https://x/disc'' @
         '': Unsupported TAXII version '' @ [CHR 0x22] @ ''None'' @ [CHR 0x22])], Inr ())"
proof -
  let ?s = "''taxii|2.0|https://x/disc''"
  have h1: "\<not> isfile sample_world ?s" by (simp add: sample_world_def)
  have h2: "startswith (str_lower sample_world ?s) ''taxii''"
    by (simp add: startswith_def lower_eval sample_world_def)
  have h3: "length (tl (split_on (CHR ''|'') ?s)) < 3" by simp
  have h4: "map_exn (base64_decode_if_prefixed sample_world) (tl (split_on (CHR ''|'') ?s))
     = Inr [''2.0'', ''https://x/disc'']"
    by (simp add: sample_world_def)
  from short_connection_string_rejected [OF h1 h2 h3, of "[]"] h4
  have "process_spec sample_world ?s =
     ([LogWarning (''Exception for '' @ quoted ?s @
         '': Unsupported TAXII version '' @ [CHR 0x22] @ ''None'' @ [CHR 0x22])], Inr ())"
    by blast
  with h1 h2 h3 h4 show ?thesis by blast
qed



subsection \<open>Matching the collections\<close>

text \<open>
  Equality after the lowering of the ASCII letters is equality up to the case of these
  letters.
\<close>

lemma of_char_lt_256: "(of_char c :: nat) < 256"
  using of_char_mod_256 [of c, where ?'a = nat]
  by (metis mod_less_divisor zero_less_numeral)

lemma ascii_lower_char_eq_iff: "ascii_lower_char a = ascii_lower_char b \<longleftrightarrow> same_letter a b"
proof -
  have up: "char_of (of_char x + (32::nat)) = y \<longleftrightarrow> of_char y = (of_char x :: nat) + 32"
    if "is_upper x" for x y
  proof
    assume "char_of (of_char x + (32::nat)) = y"
    then have "(of_char y :: nat) = (of_char x + 32) mod 256"
      by (auto simp: of_char_of)
    moreover have "(of_char x :: nat) + 32 < 256"
      using that by (simp add: is_upper_def)
    ultimately show "of_char y = (of_char x :: nat) + 32" by simp
  next
    assume "of_char y = (of_char x :: nat) + 32"
    then have "char_of (of_char x + (32::nat)) = char_of (of_char y :: nat)" by simp
    then show "char_of (of_char x + (32::nat)) = y" by simp
  qed
  show ?thesis
  proof (cases "is_upper a"; cases "is_upper b")
    assume a: "is_upper a" and b: "is_upper b"
    have "ascii_lower_char a = ascii_lower_char b \<longleftrightarrow> of_char (ascii_lower_char b) = (of_char a :: nat) + 32"
      using a up [OF a, of "ascii_lower_char b"] by (simp add: ascii_lower_char_def is_upper_def Let_def)
    also have "of_char (ascii_lower_char b) = (of_char b :: nat) + 32"
      using b up [OF b, of "ascii_lower_char b"] by (simp add: ascii_lower_char_def is_upper_def Let_def)
    finally have "ascii_lower_char a = ascii_lower_char b \<longleftrightarrow> (of_char a :: nat) = of_char b" by auto
    then show ?thesis
      using a b by (auto simp: same_letter_def is_upper_def)
  next
    assume a: "is_upper a" and b: "\<not> is_upper b"
    then have "a \<noteq> b" by auto
    then show ?thesis
      using a b up [OF a, of b] by (auto simp: same_letter_def ascii_lower_char_def is_upper_def Let_def)
  next
    assume a: "\<not> is_upper a" and b: "is_upper b"
    then have "a \<noteq> b" by auto
    then show ?thesis
      using a b up [OF b, of a] by (auto simp: same_letter_def ascii_lower_char_def is_upper_def Let_def)
  next
    assume "\<not> is_upper a" and "\<not> is_upper b"
    then show ?thesis
      by (auto simp: same_letter_def ascii_lower_char_def is_upper_def Let_def)
  qed
qed

lemma ascii_lower_eq_iff: "ascii_lower s = ascii_lower t \<longleftrightarrow> equal_ignoring_case s t"
  unfolding ascii_lower_def equal_ignoring_case_def
proof (induction s arbitrary: t)
  case Nil
  show ?case by auto
next
  case (Cons a s)
  show ?case by (cases t) (auto simp: ascii_lower_char_eq_iff Cons.IH)
qed

lemma collection_matches_name:
  "collection_matches W (Some n) c = Inr (matching W n c)"
  by (simp add: collection_matches_def matching_def)



text \<open>With a name given, the two loops are one pass over all collections, and none raises.\<close>

lemma collect_root_fold:
  "collect_root W (Some n) cs acc =
     Inr (fold (\<lambda>c acc. if matching W n c then AList.update (title c) (ident c, url c) acc else acc) cs acc)"
  by (induction cs arbitrary: acc) (simp_all add: collection_matches_name)

lemma collect_urls_fold:
  "collect_urls W (Some n) rs acc =
     Inr (fold (\<lambda>c acc. if matching W n c then AList.update (title c) (ident c, url c) acc else acc)
            (concat rs) acc)"
  by (induction rs arbitrary: acc) (simp_all add: collect_root_fold)

lemma map_of_fold_update:
  "map_of (fold (\<lambda>c acc. if P c then AList.update (title c) (ident c, url c) acc else acc) cs acc) =
     map_of acc ++ map_of (rev (map (\<lambda>c. (title c, (ident c, url c))) (filter P cs)))"
proof (induction cs arbitrary: acc)
  case Nil
  show ?case by simp
next
  case (Cons c cs)
  show ?case
    by (simp add: Cons.IH update_conv' map_add_def fun_eq_iff split: option.splits)
qed

lemma keys_fold_update:
  "fst ` set (fold (\<lambda>c acc. if P c then AList.update (title c) (ident c, url c) acc else acc) cs acc) =
     fst ` set acc \<union> title ` {c \<in> set cs. P c}"
  by (induction cs arbitrary: acc) (auto simp: dom_update)

lemma distinct_fold_update:
  "distinct (map fst acc) \<Longrightarrow>
   distinct (map fst (fold (\<lambda>c acc. if P c then AList.update (title c) (ident c, url c) acc else acc) cs acc))"
  by (induction cs arbitrary: acc) (auto simp: distinct_update)

lemma map_of_last_wins:
  assumes "ms = ms1 @ c # ms2" and "title c \<notin> title ` set ms2"
  shows "map_of (rev (map (\<lambda>c. (title c, (ident c, url c))) ms)) (title c) = Some (ident c, url c)"
proof -
  have "map_of (rev (map (\<lambda>c. (title c, (ident c, url c))) ms2)) (title c) = None"
    using assms(2) by (auto simp: map_of_eq_None_iff image_iff)
  then show ?thesis
    by (simp add: assms(1) map_add_def)
qed

text \<open>
  C5. For every server and every name requested, the two loops of lines 194-202 end
  without an exception; the titles that key the result are exactly the titles of the
  collections that match, each title once; under each title stands the id and URL of the
  last matching collection of that title in the order of enumeration. Every collection
  matches the name \<open>*\<close>; another name is matched by the titles equal to it once
  \<open>str.lower\<close> has lowered both, and where \<open>str.lower\<close> lowers the title and the name
  as ASCII strings are lowered, these are the titles equal to the name up to the case of
  the letters.
\<close>

theorem collect_urls_matches:
  "\<exists>res. collect_urls W (Some n) roots [] = Inr res \<and>
      distinct (map fst res) \<and>
      set (map fst res) = title ` {c \<in> set (concat roots). matching W n c} \<and>
      (\<forall>ms1 c ms2. filter (matching W n) (concat roots) = ms1 @ c # ms2 \<and>
           title c \<notin> title ` set ms2 \<longrightarrow> map_of res (title c) = Some (ident c, url c)) \<and>
      (\<forall>c. matching W ''*'' c) \<and>
      (\<forall>c. matching W n c \<longleftrightarrow> n = ''*'' \<or> str_lower W (title c) = str_lower W n) \<and>
      (\<forall>c. str_lower W (title c) = ascii_lower (title c) \<and> str_lower W n = ascii_lower n \<longrightarrow>
           (matching W n c \<longleftrightarrow> n = ''*'' \<or> equal_ignoring_case (title c) n))"
proof -
  let ?step = "\<lambda>c acc. if matching W n c then AList.update (title c) (ident c, url c) acc else acc"
  let ?res = "fold ?step (concat roots) []"
  have r: "collect_urls W (Some n) roots [] = Inr ?res"
    by (rule collect_urls_fold)
  have d: "distinct (map fst ?res)"
    by (rule distinct_fold_update) simp
  have k: "set (map fst ?res) = title ` {c \<in> set (concat roots). matching W n c}"
    using keys_fold_update [of "matching W n" "concat roots" "[]"] by simp
  have m: "map_of ?res = map_of (rev (map (\<lambda>c. (title c, (ident c, url c)))
                                     (filter (matching W n) (concat roots))))"
    using map_of_fold_update [of "matching W n" "concat roots" "[]"] by simp
  have l: "\<forall>ms1 c ms2. filter (matching W n) (concat roots) = ms1 @ c # ms2 \<and>
           title c \<notin> title ` set ms2 \<longrightarrow> map_of ?res (title c) = Some (ident c, url c)"
    unfolding m by (intro allI impI, elim conjE) (rule map_of_last_wins)
  have s: "\<forall>c. matching W ''*'' c"
    by (simp add: matching_def)
  have e: "\<forall>c. matching W n c \<longleftrightarrow> n = ''*'' \<or> str_lower W (title c) = str_lower W n"
    by (simp add: matching_def)
  have a: "\<forall>c. str_lower W (title c) = ascii_lower (title c) \<and> str_lower W n = ascii_lower n \<longrightarrow>
           (matching W n c \<longleftrightarrow> n = ''*'' \<or> equal_ignoring_case (title c) n)"
    by (simp add: matching_def ascii_lower_eq_iff)
  from r d k l s e a show ?thesis
    by (intro exI [where x = ?res] conjI)
qed

theorem collect_urls_matches_witness:
  "filter (matching sample_world ''ALPHA'') (concat (api_roots sample_server)) =
      [\<lparr>ident = ''1'', title = ''Alpha'', url = ''https://x/c1''\<rparr>] @
      \<lparr>ident = ''3'', title = ''Alpha'', url = ''https://x/c3''\<rparr> # [] \<and>
   title \<lparr>ident = ''3'', title = ''Alpha'', url = ''https://x/c3''\<rparr> \<notin> title ` set [] \<and>
   str_lower sample_world (title \<lparr>ident = ''3'', title = ''Alpha'', url = ''https://x/c3''\<rparr>) =
      ascii_lower (title \<lparr>ident = ''3'', title = ''Alpha'', url = ''https://x/c3''\<rparr>) \<and>
   str_lower sample_world ''ALPHA'' = ascii_lower ''ALPHA'' \<and>
   equal_ignoring_case ''Alpha'' ''ALPHA'' \<and>
   matching sample_world ''ALPHA'' \<lparr>ident = ''3'', title = ''Alpha'', url = ''https://x/c3''\<rparr> \<and>
   (\<exists>res. collect_urls sample_world (Some ''ALPHA'') (api_roots sample_server) [] = Inr res \<and>
      set (map fst res) = {''Alpha''} \<and>
      map_of res ''Alpha'' = Some (''3'', ''https://x/c3''))"
proof -
  let ?c1 = "\<lparr>ident = ''1'', title = ''Alpha'', url = ''https://x/c1''\<rparr>"
  let ?c2 = "\<lparr>ident = ''2'', title = ''beta'', url = ''https://x/c2''\<rparr>"
  let ?c3 = "\<lparr>ident = ''3'', title = ''Alpha'', url = ''https://x/c3''\<rparr>"
  have m1: "matching sample_world ''ALPHA'' ?c1" and m2: "\<not> matching sample_world ''ALPHA'' ?c2"
    by (simp_all add: matching_def sample_world_def lower_eval)
  have f: "filter (matching sample_world ''ALPHA'') (concat (api_roots sample_server)) = [?c1] @ ?c3 # []"
    using m1 m2 by (simp add: sample_server_def matching_def)
  have t: "title ?c3 \<notin> title ` set []" by simp
  have a1: "str_lower sample_world (title ?c3) = ascii_lower (title ?c3)"
    and a2: "str_lower sample_world ''ALPHA'' = ascii_lower ''ALPHA''"
    by (simp_all add: sample_world_def)
  have eq: "equal_ignoring_case ''Alpha'' ''ALPHA''"
    by (simp add: equal_ignoring_case_def same_letter_def is_upper_def)
  from collect_urls_matches [of sample_world "''ALPHA''" "api_roots sample_server"]
  obtain res where res: "collect_urls sample_world (Some ''ALPHA'') (api_roots sample_server) [] = Inr res"
    and keys: "set (map fst res) =
        title ` {c \<in> set (concat (api_roots sample_server)). matching sample_world ''ALPHA'' c}"
    and last: "\<forall>ms1 c ms2. filter (matching sample_world ''ALPHA'') (concat (api_roots sample_server)) = ms1 @ c # ms2 \<and>
           title c \<notin> title ` set ms2 \<longrightarrow> map_of res (title c) = Some (ident c, url c)"
    and ascii: "\<forall>c. str_lower sample_world (title c) = ascii_lower (title c) \<and>
           str_lower sample_world ''ALPHA'' = ascii_lower ''ALPHA'' \<longrightarrow>
           (matching sample_world ''ALPHA'' c \<longleftrightarrow> ''ALPHA'' = ''*'' \<or> equal_ignoring_case (title c) ''ALPHA'')"
    by (elim exE conjE)
  from last [rule_format, of "[?c1]" ?c3 "[]"] f t
  have v: "map_of res ''Alpha'' = Some (''3'', ''https://x/c3'')"
    by simp
  from ascii have "str_lower sample_world (title ?c3) = ascii_lower (title ?c3) \<and>
           str_lower sample_world ''ALPHA'' = ascii_lower ''ALPHA'' \<longrightarrow>
           (matching sample_world ''ALPHA'' ?c3 \<longleftrightarrow> ''ALPHA'' = ''*'' \<or> equal_ignoring_case (title ?c3) ''ALPHA'')"
    by (rule spec)
  with a1 a2 eq have m3: "matching sample_world ''ALPHA'' ?c3"
    by simp
  have "{c \<in> set (concat (api_roots sample_server)). matching sample_world ''ALPHA'' c} = {?c1, ?c3}"
    using m1 m2 m3 by (auto simp: sample_server_def)
  with keys have k: "set (map fst res) = {''Alpha''}" by simp
  from res k v have "\<exists>res. collect_urls sample_world (Some ''ALPHA'') (api_roots sample_server) [] = Inr res \<and>
      set (map fst res) = {''Alpha''} \<and> map_of res ''Alpha'' = Some (''3'', ''https://x/c3'')"
    by (intro exI [where x = res] conjI)
  with f t a1 a2 eq m3 show ?thesis
    by (intro conjI)
qed



subsection \<open>Paths\<close>

lemma rfind_absent: "c \<notin> set s \<Longrightarrow> rfind s c = - 1"
  by (simp add: rfind_def)

lemma rfind_last: "c \<notin> set e \<Longrightarrow> rfind (b @ c # e) c = int (length b)"
proof -
  assume "c \<notin> set e"
  then have "takeWhile (\<lambda>x. x \<noteq> c) (rev e @ c # rev b) = rev e"
    by (subst takeWhile_append2) auto
  then show ?thesis by (simp add: rfind_def)
qed

lemma basename_plain: "CHR ''/'' \<notin> set name \<Longrightarrow> basename name = name"
  by (simp add: basename_def rfind_absent)

lemma basename_dir: "CHR ''/'' \<notin> set name \<Longrightarrow> basename (dir @ ''/'' @ name) = name"
  by (simp add: basename_def rfind_last nat_add_distrib)

text \<open>What the loop over the leading dots decides.\<close>

lemma nondot_before_iff:
  "nondot_before p i d \<longleftrightarrow> (\<exists>k. i \<le> k \<and> k < d \<and> take 1 (drop k p) \<noteq> ''.'')"
proof (induction p i d rule: nondot_before.induct)
  case (1 p i d)
  show ?case
  proof (cases "i < d")
    case False
    then show ?thesis by (simp add: nondot_before.simps [of p i d])
  next
    case True
    show ?thesis
    proof (cases "take 1 (drop i p) \<noteq> ''.''")
      case t: True
      with True show ?thesis
        by (auto simp: nondot_before.simps [of p i d])
    next
      case f: False
      have "nondot_before p i d = nondot_before p (Suc i) d"
        using True f by (simp add: nondot_before.simps [of p i d])
      also have "\<dots> \<longleftrightarrow> (\<exists>k. Suc i \<le> k \<and> k < d \<and> take 1 (drop k p) \<noteq> ''.'')"
        using "1.IH" True f by simp
      also have "\<dots> \<longleftrightarrow> (\<exists>k. i \<le> k \<and> k < d \<and> take 1 (drop k p) \<noteq> ''.'')"
      proof
        assume "\<exists>k. Suc i \<le> k \<and> k < d \<and> take 1 (drop k p) \<noteq> ''.''"
        then obtain k where "Suc i \<le> k" "k < d" "take 1 (drop k p) \<noteq> ''.''" by blast
        then have "i \<le> k \<and> k < d \<and> take 1 (drop k p) \<noteq> ''.''" by simp
        then show "\<exists>k. i \<le> k \<and> k < d \<and> take 1 (drop k p) \<noteq> ''.''" ..
      next
        assume "\<exists>k. i \<le> k \<and> k < d \<and> take 1 (drop k p) \<noteq> ''.''"
        then obtain k where k: "i \<le> k" "k < d" "take 1 (drop k p) \<noteq> ''.''" by blast
        with f have "k \<noteq> i" by auto
        with k have "Suc i \<le> k \<and> k < d \<and> take 1 (drop k p) \<noteq> ''.''" by simp
        then show "\<exists>k. Suc i \<le> k \<and> k < d \<and> take 1 (drop k p) \<noteq> ''.''" ..
      qed
      finally show ?thesis .
    qed
  qed
qed

lemma take1_drop:
  assumes "k < length b"
  shows "take 1 (drop k (b @ r)) = [b ! k]"
proof -
  have "k < length (b @ r)"
    using assms by simp
  then have "drop k (b @ r) = (b @ r) ! k # drop (Suc k) (b @ r)"
    by (rule Cons_nth_drop_Suc [symmetric])
  then have "take 1 (drop k (b @ r)) = [(b @ r) ! k]"
    by (simp only: take_Suc_Cons take_0 One_nat_def)
  then show ?thesis
    using assms by (simp only: nth_append if_True)
qed

lemma nondot_prefix:
  "nondot_before (b @ r) 0 (length b) \<longleftrightarrow> (\<exists>x \<in> set b. x \<noteq> CHR ''.'')"
proof
  assume "nondot_before (b @ r) 0 (length b)"
  then obtain k where k: "k < length b" "take 1 (drop k (b @ r)) \<noteq> ''.''"
    unfolding nondot_before_iff by blast
  then have "b ! k \<noteq> CHR ''.''"
    by (simp only: take1_drop) simp
  moreover have "b ! k \<in> set b"
    using k(1) by simp
  ultimately show "\<exists>x \<in> set b. x \<noteq> CHR ''.''"
    by (rule_tac x = "b ! k" in bexI)
next
  assume "\<exists>x \<in> set b. x \<noteq> CHR ''.''"
  then obtain x where x: "x \<in> set b" "x \<noteq> CHR ''.''" ..
  from x(1) obtain k where "k < length b" "b ! k = x"
    unfolding in_set_conv_nth by (elim exE conjE)
  with x(2) have k: "k < length b" "b ! k \<noteq> CHR ''.''"
    by simp_all
  then have "take 1 (drop k (b @ r)) \<noteq> ''.''"
    by (simp only: take1_drop) simp
  with k(1) have "0 \<le> k \<and> k < length b \<and> take 1 (drop k (b @ r)) \<noteq> ''.''" by simp
  then show "nondot_before (b @ r) 0 (length b)"
    unfolding nondot_before_iff ..
qed

lemma splitext_stem:
  assumes "CHR ''/'' \<notin> set b" "CHR ''/'' \<notin> set e" "CHR ''.'' \<notin> set e"
  shows "fst (splitext (b @ ''.'' @ e)) = (if \<exists>x \<in> set b. x \<noteq> CHR ''.'' then b else b @ ''.'' @ e)"
proof -
  have s: "rfind (b @ CHR ''.'' # e) (CHR ''/'') = - 1"
    using assms(1,2) by (simp add: rfind_absent)
  have d: "rfind (b @ CHR ''.'' # e) (CHR ''.'') = int (length b)"
    using assms(3) by (simp add: rfind_last)
  show ?thesis
    using nondot_prefix [of b "CHR ''.'' # e"] by (simp add: splitext_def s d Let_def)
qed

lemma splitext_no_dot: "CHR ''.'' \<notin> set name \<Longrightarrow> fst (splitext name) = name"
  by (simp add: splitext_def rfind_absent nondot_before_iff Let_def)


subsection \<open>The pages of a collection\<close>

text \<open>The pages of a collection reach the converter in order, up to the first failure.\<close>

lemma converter_loop_events:
  "fst (for_each (\<lambda>envelope. call_converter W (EnvelopeUnit envelope) l) envs) =
     map (\<lambda>envelope. ProcessSTIX (EnvelopeUnit envelope) l) (pages_handed W l envs)"
proof (induction envs)
  case Nil
  show ?case by (simp add: ret_def pages_handed_def)
next
  case (Cons x xs)
  show ?case
  proof (cases "process_stix W (EnvelopeUnit x) l")
    case None
    then have "call_converter W (EnvelopeUnit x) l = ([ProcessSTIX (EnvelopeUnit x) l], Inr ())"
      by (simp add: call_converter_def check_def ret_def)
    then have "fst (for_each (\<lambda>envelope. call_converter W (EnvelopeUnit envelope) l) (x # xs)) =
         ProcessSTIX (EnvelopeUnit x) l #
         fst (for_each (\<lambda>envelope. call_converter W (EnvelopeUnit envelope) l) xs)"
      by simp
    also have "\<dots> = map (\<lambda>envelope. ProcessSTIX (EnvelopeUnit envelope) l) (x # pages_handed W l xs)"
      by (simp add: Cons.IH)
    also have "x # pages_handed W l xs = pages_handed W l (x # xs)"
      using None by (simp add: pages_handed_def)
    finally show ?thesis .
  next
    case (Some e)
    then have "call_converter W (EnvelopeUnit x) l = ([ProcessSTIX (EnvelopeUnit x) l], Inl e)"
      by (simp add: call_converter_def check_def propagate_def)
    then have "fst (for_each (\<lambda>envelope. call_converter W (EnvelopeUnit envelope) l) (x # xs)) =
         [ProcessSTIX (EnvelopeUnit x) l]"
      by simp
    moreover have "pages_handed W l (x # xs) = [x]"
      using Some by (simp add: pages_handed_def)
    ultimately show ?thesis by simp
  qed
qed

lemma pages_handed_all:
  "\<forall>envelope \<in> set envs. process_stix W (EnvelopeUnit envelope) l = None \<Longrightarrow>
   pages_handed W l envs = envs"
  by (simp add: pages_handed_def takeWhile_eq_all_conv [THEN iffD2])

lemma page_loop_events:
  "fst (page_loop W v c srv t u) =
     map (\<lambda>envelope. ProcessSTIX (EnvelopeUnit envelope) (provenance (server_title srv) (Some t)))
       (pages_handed W (provenance (server_title srv) (Some t))
          (fst (as_pages W v u (taxiiUsername c) (taxiiPassword c))))"
proof -
  obtain envs failure where p: "as_pages W v u (taxiiUsername c) (taxiiPassword c) = (envs, failure)"
    by (cases "as_pages W v u (taxiiUsername c) (taxiiPassword c)")
  let ?l = "provenance (server_title srv) (Some t)"
  let ?loop = "for_each (\<lambda>envelope. call_converter W (EnvelopeUnit envelope) ?l) envs"
  obtain evs r where l: "?loop = (evs, r)" by (cases ?loop)
  have "fst (page_loop W v c srv t u) = evs"
    by (cases r; cases failure) (simp_all add: page_loop_def p l check_def ret_def propagate_def)
  also have "evs = fst ?loop"
    by (simp add: l)
  finally show ?thesis
    by (simp add: converter_loop_events p)
qed

subsection \<open>Retrieving the matched collections\<close>










subsection \<open>Provenance labels\<close>

text \<open>
  C8. A local file goes to the converter under \<open>splitext(basename(path))[0]\<close>: the
  part of the path after its last \<open>/\<close>, without its last dot and what follows it
  (a name without a dot, or with dots only before its last dot, is kept whole, as
  \<open>os.path.splitext\<close> has it). The pages of a collection go to the converter, in
  order, up to the first one on which the converter raises (all of them when it does not
  raise), each under the title of the server and the title of the collection joined by
  \<open>:\<close>, where a title that is \<open>None\<close> is left out together with the separator.
\<close>

theorem provenance_labels:
  "(isfile W s \<and> open_read W s = None \<longrightarrow>
      fst (spec_body W s) = [ProcessSTIX (FileUnit s) (fst (splitext (basename s)))]) \<and>
   (CHR ''/'' \<notin> set name \<longrightarrow> basename name = name \<and> basename (dir @ ''/'' @ name) = name) \<and>
   (CHR ''/'' \<notin> set b \<and> CHR ''/'' \<notin> set e \<and> CHR ''.'' \<notin> set e \<longrightarrow>
      fst (splitext (b @ ''.'' @ e)) = (if \<exists>x \<in> set b. x \<noteq> CHR ''.'' then b else b @ ''.'' @ e)) \<and>
   (CHR ''.'' \<notin> set name \<longrightarrow> fst (splitext name) = name) \<and>
   fst (page_loop W v c srv t u) =
     map (\<lambda>envelope. ProcessSTIX (EnvelopeUnit envelope) (provenance (server_title srv) (Some t)))
       (pages_handed W (provenance (server_title srv) (Some t))
          (fst (as_pages W v u (taxiiUsername c) (taxiiPassword c)))) \<and>
   ((\<forall>envelope \<in> set (fst (as_pages W v u (taxiiUsername c) (taxiiPassword c))).
        process_stix W (EnvelopeUnit envelope) (provenance (server_title srv) (Some t)) = None) \<longrightarrow>
    fst (page_loop W v c srv t u) =
      map (\<lambda>envelope. ProcessSTIX (EnvelopeUnit envelope) (provenance (server_title srv) (Some t)))
        (fst (as_pages W v u (taxiiUsername c) (taxiiPassword c)))) \<and>
   provenance (Some a) (Some t) = a @ '':'' @ t \<and>
   provenance None (Some t) = t \<and>
   provenance (Some a) None = a \<and>
   provenance None None = []"
proof -
  have p: "provenance (Some a) (Some t) = a @ '':'' @ t" "provenance None (Some t) = t"
    "provenance (Some a) None = a" "provenance None None = []"
    by (simp_all add: provenance_def)
  have f: "isfile W s \<and> open_read W s = None \<longrightarrow>
      fst (spec_body W s) = [ProcessSTIX (FileUnit s) (fst (splitext (basename s)))]"
    by (simp add: spec_body_file)
  have bn: "CHR ''/'' \<notin> set name \<longrightarrow> basename name = name \<and> basename (dir @ ''/'' @ name) = name"
    using basename_plain [of name] basename_dir [of name dir] by simp
  have st: "CHR ''/'' \<notin> set b \<and> CHR ''/'' \<notin> set e \<and> CHR ''.'' \<notin> set e \<longrightarrow>
      fst (splitext (b @ ''.'' @ e)) = (if \<exists>x \<in> set b. x \<noteq> CHR ''.'' then b else b @ ''.'' @ e)"
    using splitext_stem [of b e] by simp
  have nd: "CHR ''.'' \<notin> set name \<longrightarrow> fst (splitext name) = name"
    by (simp add: splitext_no_dot)
  note pl = page_loop_events [of W v c srv t u]
  have pa: "(\<forall>envelope \<in> set (fst (as_pages W v u (taxiiUsername c) (taxiiPassword c))).
        process_stix W (EnvelopeUnit envelope) (provenance (server_title srv) (Some t)) = None) \<longrightarrow>
    fst (page_loop W v c srv t u) =
      map (\<lambda>envelope. ProcessSTIX (EnvelopeUnit envelope) (provenance (server_title srv) (Some t)))
        (fst (as_pages W v u (taxiiUsername c) (taxiiPassword c)))"
    by (simp add: pl pages_handed_all)
  show ?thesis
    by (intro conjI f bn st nd pl pa p)
qed

theorem provenance_labels_witness:
  "isfile sample_world ''dir/c.tar.json'' \<and> open_read sample_world ''dir/c.tar.json'' = None \<and>
   CHR ''/'' \<notin> set ''c.tar.json'' \<and> CHR ''/'' \<notin> set ''c.tar'' \<and> CHR ''/'' \<notin> set ''json'' \<and>
   CHR ''.'' \<notin> set ''json'' \<and> CHR ''.'' \<notin> set ''abc'' \<and>
   as_pages sample_world V21 ''https://x/c2'' None None = ([''q1'', ''q2''], None) \<and>
   process_stix sample_world (EnvelopeUnit ''q1'') ''X:beta'' = None \<and>
   process_stix sample_world (EnvelopeUnit ''q2'') ''X:beta'' = None \<and>
   fst (spec_body sample_world ''dir/c.tar.json'') =
     [ProcessSTIX (FileUnit ''dir/c.tar.json'') ''c.tar''] \<and>
   fst (splitext ''abc'') = ''abc'' \<and>
   fst (page_loop sample_world V21
          \<lparr>taxiiVersion = Some ''2.1'', taxiiDisoveryURL = Some ''https://x/disc'',
             taxiiCollectionName = Some ''*'', taxiiUsername = None, taxiiPassword = None\<rparr>
          sample_server ''beta'' ''https://x/c2'') =
     [ProcessSTIX (EnvelopeUnit ''q1'') ''X:beta'', ProcessSTIX (EnvelopeUnit ''q2'') ''X:beta'']"
proof -
  let ?c = "\<lparr>taxiiVersion = Some ''2.1'', taxiiDisoveryURL = Some ''https://x/disc'',
             taxiiCollectionName = Some ''*'', taxiiUsername = None, taxiiPassword = None\<rparr>"
  have h: "isfile sample_world ''dir/c.tar.json''" "open_read sample_world ''dir/c.tar.json'' = None"
    by (simp_all add: sample_world_def)
  have n: "CHR ''/'' \<notin> set ''c.tar.json''" "CHR ''/'' \<notin> set ''c.tar''" "CHR ''/'' \<notin> set ''json''"
    "CHR ''.'' \<notin> set ''json''" "CHR ''.'' \<notin> set ''abc''"
    by simp_all
  have pg: "\<forall>envelope \<in> set (fst (as_pages sample_world V21 ''https://x/c2'' (taxiiUsername ?c) (taxiiPassword ?c))).
      process_stix sample_world (EnvelopeUnit envelope) (provenance (server_title sample_server) (Some ''beta''))
        = None"
    by (simp add: sample_world_def)
  note t = provenance_labels [where W = sample_world and s = "''dir/c.tar.json''"
      and name = "''c.tar.json''" and dir = "''dir''" and b = "''c.tar''" and e = "''json''"
      and v = V21 and c = ?c and srv = sample_server and t = "''beta''" and u = "''https://x/c2''"
      and a = "''X''"]
  from t h have 1: "fst (spec_body sample_world ''dir/c.tar.json'') =
     [ProcessSTIX (FileUnit ''dir/c.tar.json'') (fst (splitext (basename ''dir/c.tar.json'')))]"
    by simp
  from t n have 2: "basename (''dir'' @ ''/'' @ ''c.tar.json'') = ''c.tar.json''"
    by simp
  from t n have 3: "fst (splitext (''c.tar'' @ ''.'' @ ''json'')) = ''c.tar''"
    by simp
  from provenance_labels [where name = "''abc''"] n have 4: "fst (splitext ''abc'') = ''abc''"
    by simp
  from t have "(\<forall>envelope \<in> set (fst (as_pages sample_world V21 ''https://x/c2'' (taxiiUsername ?c) (taxiiPassword ?c))).
        process_stix sample_world (EnvelopeUnit envelope) (provenance (server_title sample_server) (Some ''beta'')) = None) \<longrightarrow>
    fst (page_loop sample_world V21 ?c sample_server ''beta'' ''https://x/c2'') =
      map (\<lambda>envelope. ProcessSTIX (EnvelopeUnit envelope) (provenance (server_title sample_server) (Some ''beta'')))
        (fst (as_pages sample_world V21 ''https://x/c2'' (taxiiUsername ?c) (taxiiPassword ?c)))"
    by (elim conjE)
  from this pg have "fst (page_loop sample_world V21 ?c sample_server ''beta'' ''https://x/c2'') =
      map (\<lambda>envelope. ProcessSTIX (EnvelopeUnit envelope) (provenance (server_title sample_server) (Some ''beta'')))
        (fst (as_pages sample_world V21 ''https://x/c2'' (taxiiUsername ?c) (taxiiPassword ?c)))"
    by (rule mp)
  moreover from t have "provenance (Some ''X'') (Some ''beta'') = ''X'' @ '':'' @ ''beta''"
    by (elim conjE)
  ultimately have 5: "fst (page_loop sample_world V21 ?c sample_server ''beta'' ''https://x/c2'') =
     [ProcessSTIX (EnvelopeUnit ''q1'') ''X:beta'', ProcessSTIX (EnvelopeUnit ''q2'') ''X:beta'']"
    by (simp add: sample_world_def sample_server_def)
  from 1 2 3 have 6: "fst (spec_body sample_world ''dir/c.tar.json'') =
     [ProcessSTIX (FileUnit ''dir/c.tar.json'') ''c.tar'']"
    by simp
  have pg': "as_pages sample_world V21 ''https://x/c2'' None None = ([''q1'', ''q2''], None)"
    "process_stix sample_world (EnvelopeUnit ''q1'') ''X:beta'' = None"
    "process_stix sample_world (EnvelopeUnit ''q2'') ''X:beta'' = None"
    by (simp_all add: sample_world_def)
  from h n pg' 6 4 5 show ?thesis by (intro conjI)
qed

end
